theory Spec2Isabelle
  imports Main "HOL-Library.Multiset" "HOL-Library.Sublist"
begin

section \<open>Syntax trees as the parser hands them over\<close>

text \<open>
  The analyzer works on ts-morph nodes. A node exposes its kind, its source text, its
  children and its parent. The tree below keeps the node kinds the analyzer inspects
  apart (call, property access, \<open>new\<close>, variable declaration, the four function-like
  kinds) and folds every other kind into \<open>Other\<close>. Every node carries its own source
  text, as \<open>getText()\<close> returns it; a call and a variable declaration also carry the
  line and column of their start, as \<open>getLineAndColumnAtPos(getStart())\<close> returns them.
  Identifier leaves (the name of a property access, of a declaration) are kept as the
  string the accessor \<open>getName()\<close> returns.
\<close>

datatype SyntaxKind = CallExpression | PropertyAccessExpression | NewExpression
  | VariableDeclaration | FunctionDeclaration | ArrowFunction | FunctionExpression
  | MethodDeclaration | OtherKind

datatype Node =
    Call string nat nat Node "Node list"
  | PropertyAccess string Node string
  | New string Node "Node list"
  | VarDecl string nat string "Node list" "Node option"
  | FunctionDecl string "Node list"
  | Arrow string "Node list"
  | FunctionExpr string "Node list"
  | MethodDecl string "Node list"
  | Other string "Node list"

fun getKind :: "Node \<Rightarrow> SyntaxKind" where
  "getKind (Call _ _ _ _ _) = CallExpression"
| "getKind (PropertyAccess _ _ _) = PropertyAccessExpression"
| "getKind (New _ _ _) = NewExpression"
| "getKind (VarDecl _ _ _ _ _) = VariableDeclaration"
| "getKind (FunctionDecl _ _) = FunctionDeclaration"
| "getKind (Arrow _ _) = ArrowFunction"
| "getKind (FunctionExpr _ _) = FunctionExpression"
| "getKind (MethodDecl _ _) = MethodDeclaration"
| "getKind (Other _ _) = OtherKind"

fun getText :: "Node \<Rightarrow> string" where
  "getText (Call t _ _ _ _) = t"
| "getText (PropertyAccess t _ _) = t"
| "getText (New t _ _) = t"
| "getText (VarDecl t _ _ _ _) = t"
| "getText (FunctionDecl t _) = t"
| "getText (Arrow t _) = t"
| "getText (FunctionExpr t _) = t"
| "getText (MethodDecl t _) = t"
| "getText (Other t _) = t"

text \<open>The children of a node, in document order.\<close>

fun children :: "Node \<Rightarrow> Node list" where
  "children (Call _ _ _ e args) = e # args"
| "children (PropertyAccess _ e _) = [e]"
| "children (New _ e args) = e # args"
| "children (VarDecl _ _ _ pre ini) = pre @ (case ini of None \<Rightarrow> [] | Some i \<Rightarrow> [i])"
| "children (FunctionDecl _ cs) = cs"
| "children (Arrow _ cs) = cs"
| "children (FunctionExpr _ cs) = cs"
| "children (MethodDecl _ cs) = cs"
| "children (Other _ cs) = cs"

lemma size_list_member: "c \<in> set cs \<Longrightarrow> size c \<le> size_list size cs"
  by (induction cs) auto

lemma children_size: "c \<in> set (children n) \<Longrightarrow> size c < size n"
  by (cases n) (auto simp: less_Suc_eq_le dest: size_list_member split: option.splits)

text \<open>
  A node in its place: the chain of its ancestors, the parent first and the source file's
  root last, and the node itself. \<open>getParent()\<close> is the head of the chain.
\<close>

type_synonym NodeRef = "Node list \<times> Node"

text \<open>All descendants of a node in pre-order, each with its ancestor chain.\<close>

function getDescendants :: "Node list \<Rightarrow> Node \<Rightarrow> NodeRef list" where
  "getDescendants parents n =
     concat (map (\<lambda>c. (n # parents, c) # getDescendants (n # parents) c) (children n))"
  by pat_completeness auto
termination
  by (relation "measure (\<lambda>(parents, n). size n)") (auto simp: children_size)

declare getDescendants.simps [simp del]

text \<open>The same traversal over a list of siblings below the chain \<open>parents\<close>.\<close>

definition descendantsOfList :: "Node list \<Rightarrow> Node list \<Rightarrow> NodeRef list" where
  "descendantsOfList parents cs =
     concat (map (\<lambda>c. (parents, c) # getDescendants parents c) cs)"

definition getDescendantsOfKind :: "SyntaxKind \<Rightarrow> NodeRef \<Rightarrow> NodeRef list" where
  "getDescendantsOfKind k r =
     filter (\<lambda>d. getKind (snd d) = k) (getDescendants (fst r) (snd r))"

record SourceFile =
  filePath :: string
  root :: Node

definition sourceFileRef :: "SourceFile \<Rightarrow> NodeRef" where
  "sourceFileRef sf = ([], root sf)"

section \<open>Types of the analyzer\<close>

datatype PrismaOperationType = Read | Write

record SourceLocation =
  file' :: string
  line :: nat
  column :: nat

record PrismaOperation =
  type :: PrismaOperationType
  method' :: string
  model :: string
  location :: SourceLocation
  usesReplica :: bool
  usesPrimary :: bool
  inTransaction :: bool

datatype Severity = Error | Warning

record Issue =
  issueType :: string
  severity :: Severity
  writeOperation :: PrismaOperation
  readOperation :: PrismaOperation
  callChain :: "string list"
  message :: string

record Summary =
  totalIssues :: nat
  filesAnalyzed :: nat
  executionTime :: string

record AnalysisResult =
  summary :: Summary
  issues :: "Issue list"

record PrismaClientInstance =
  name :: string
  instanceFile :: string
  instanceLine :: nat
  hasReadReplicaExtension :: bool

section \<open>Strings\<close>

text \<open>\<open>String.prototype.includes\<close>: the argument occurs somewhere in the string.\<close>

fun includes_str :: "string \<Rightarrow> string \<Rightarrow> bool" where
  "includes_str [] sub = (sub = [])"
| "includes_str (c # cs) sub = (prefix sub (c # cs) \<or> includes_str cs sub)"

text \<open>A line number in a template literal: its decimal digits.\<close>

definition digitChar :: "nat \<Rightarrow> char" where
  "digitChar d = ''0123456789'' ! d"

function numberToString :: "nat \<Rightarrow> string" where
  "numberToString n =
     (if n < 10 then [digitChar n] else numberToString (n div 10) @ [digitChar (n mod 10)])"
  by pat_completeness auto
termination
  by (relation "measure id") auto

declare numberToString.simps [simp del]

section \<open>Operation classifier\<close>

definition WRITE_METHODS :: "string set" where
  "WRITE_METHODS = {''create'', ''createMany'', ''update'', ''updateMany'', ''upsert'',
     ''delete'', ''deleteMany''}"

definition READ_METHODS :: "string set" where
  "READ_METHODS = {''findMany'', ''findUnique'', ''findFirst'', ''findFirstOrThrow'',
     ''findUniqueOrThrow'', ''count'', ''aggregate'', ''groupBy''}"

text \<open>The model name: the property name of the expression the method is taken from.\<close>

fun extractModelName :: "Node \<Rightarrow> string option" where
  "extractModelName (PropertyAccess _ (PropertyAccess _ _ nm) _) =
     (if nm = ''$primary'' \<or> nm = ''$replica'' then None else Some nm)"
| "extractModelName _ = None"

text \<open>
  The loop of \<open>checkReplicaUsage\<close> over \<open>current\<close>: the first node whose text mentions
  \<open>$primary()\<close> or \<open>$replica()\<close> decides, \<open>$primary()\<close> first; otherwise the walk goes on
  into a property access or a call and stops at any other node. The result is the pair
  \<open>(usesPrimary, usesReplica)\<close>.
\<close>

fun replicaWalk :: "Node \<Rightarrow> bool \<times> bool" where
  "replicaWalk current =
     (if includes_str (getText current) ''$primary()'' then (True, False)
      else if includes_str (getText current) ''$replica()'' then (False, True)
      else (case current of
              PropertyAccess _ e _ \<Rightarrow> replicaWalk e
            | Call _ _ _ e _ \<Rightarrow> replicaWalk e
            | _ \<Rightarrow> (False, False)))"

declare replicaWalk.simps [simp del]

fun checkReplicaUsage :: "Node \<Rightarrow> bool \<times> bool" where
  "checkReplicaUsage (PropertyAccess _ e _) = replicaWalk e"
| "checkReplicaUsage _ = (False, False)"

text \<open>The callee of a call is a property access named \<open>$transaction\<close>.\<close>

fun isTransactionCall :: "Node \<Rightarrow> bool" where
  "isTransactionCall (Call _ _ _ (PropertyAccess _ _ nm) _) = (nm = ''$transaction'')"
| "isTransactionCall _ = False"

text \<open>The loop of \<open>isInTransaction\<close> over \<open>parent\<close>, from the call's parent up to the root.\<close>

fun isInTransaction :: "Node list \<Rightarrow> bool" where
  "isInTransaction [] = False"
| "isInTransaction (parent # rest) =
     (if isTransactionCall parent then True else isInTransaction rest)"

text \<open>
  \<open>classifyOperation\<close>, given the path of the call's source file and the call in its
  place. The test \<open>!model\<close> also rejects the empty string.
\<close>

fun classifyOperation :: "string \<Rightarrow> NodeRef \<Rightarrow> PrismaOperation option" where
  "classifyOperation path (parents, Call t ln col (PropertyAccess pt pe methodName) args) =
     (case (if methodName \<in> WRITE_METHODS then Some Write
            else if methodName \<in> READ_METHODS then Some Read else None) of
        None \<Rightarrow> None
      | Some ty \<Rightarrow>
          (case extractModelName (PropertyAccess pt pe methodName) of
             None \<Rightarrow> None
           | Some m \<Rightarrow>
               if m = [] then None
               else (case checkReplicaUsage (PropertyAccess pt pe methodName) of
                       (usesP, usesR) \<Rightarrow>
                         Some \<lparr>type = ty, method' = methodName, model = m,
                               location = \<lparr>file' = path, line = ln, column = col\<rparr>,
                               usesReplica = usesR, usesPrimary = usesP,
                               inTransaction = isInTransaction parents\<rparr>)))"
| "classifyOperation path _ = None"

text \<open>\<open>isWriteMethod\<close> and \<open>isReadMethod\<close>.\<close>

definition isWriteMethod :: "string \<Rightarrow> bool" where
  "isWriteMethod m = (m \<in> WRITE_METHODS)"

definition isReadMethod :: "string \<Rightarrow> bool" where
  "isReadMethod m = (m \<in> READ_METHODS)"

section \<open>Issue detector\<close>

record OperationWithNode =
  operation :: PrismaOperation
  node :: Node

definition mkIssue :: "PrismaOperation \<Rightarrow> PrismaOperation \<Rightarrow> Issue" where
  "mkIssue writeOp readOp =
     \<lparr>issueType = ''read-after-write'', severity = Error,
      writeOperation = writeOp, readOperation = readOp,
      callChain = [file' (location writeOp) @ '':'' @ numberToString (line (location writeOp)),
                   file' (location readOp) @ '':'' @ numberToString (line (location readOp))],
      message = ''Read operation on '' @ model readOp @ ''.'' @ method' readOp
        @ ''() may use replica immediately after write operation on ''
        @ model writeOp @ ''.'' @ method' writeOp
        @ ''(), potentially reading stale data. Consider using $primary() for the read operation.''\<rparr>"

text \<open>The classified calls of a function-like construct, in traversal order.\<close>

definition collectOperations :: "string \<Rightarrow> NodeRef \<Rightarrow> OperationWithNode list" where
  "collectOperations path func =
     List.map_filter
       (\<lambda>callExpr. map_option (\<lambda>op. \<lparr>operation = op, node = snd callExpr\<rparr>)
                      (classifyOperation path callExpr))
       (getDescendantsOfKind CallExpression func)"

text \<open>The inner loop over \<open>j\<close>; every \<open>continue\<close> is the call with \<open>j + 1\<close>.\<close>

function readLoop ::
  "OperationWithNode list \<Rightarrow> PrismaOperation \<Rightarrow> nat \<Rightarrow> Issue list \<Rightarrow> Issue list" where
  "readLoop operations writeOp j acc =
     (if j < length operations then
        (let readOp = operation (operations ! j) in
         if type readOp \<noteq> Read then readLoop operations writeOp (j + 1) acc
         else if inTransaction readOp then readLoop operations writeOp (j + 1) acc
         else if usesPrimary readOp then readLoop operations writeOp (j + 1) acc
         else readLoop operations writeOp (j + 1) (acc @ [mkIssue writeOp readOp]))
      else acc)"
  by pat_completeness auto
termination
  by (relation "measure (\<lambda>(operations, writeOp, j, acc). length operations - j)") auto

declare readLoop.simps [simp del]

text \<open>The outer loop over \<open>i\<close>.\<close>

function writeLoop :: "OperationWithNode list \<Rightarrow> nat \<Rightarrow> Issue list \<Rightarrow> Issue list" where
  "writeLoop operations i acc =
     (if i < length operations then
        (let writeOp = operation (operations ! i) in
         if type writeOp \<noteq> Write then writeLoop operations (i + 1) acc
         else if inTransaction writeOp then writeLoop operations (i + 1) acc
         else writeLoop operations (i + 1) (readLoop operations writeOp (i + 1) acc))
      else acc)"
  by pat_completeness auto
termination
  by (relation "measure (\<lambda>(operations, i, acc). length operations - i)") auto

declare writeLoop.simps [simp del]

definition detectIssuesInFunction :: "string \<Rightarrow> NodeRef \<Rightarrow> Issue list" where
  "detectIssuesInFunction path func = writeLoop (collectOperations path func) 0 []"

text \<open>The function-like constructs of a file, kind by kind as the source lists them.\<close>

definition functionsOf :: "SourceFile \<Rightarrow> NodeRef list" where
  "functionsOf sourceFile =
     getDescendantsOfKind FunctionDeclaration (sourceFileRef sourceFile)
     @ getDescendantsOfKind ArrowFunction (sourceFileRef sourceFile)
     @ getDescendantsOfKind FunctionExpression (sourceFileRef sourceFile)
     @ getDescendantsOfKind MethodDeclaration (sourceFileRef sourceFile)"

definition detectIssuesInFile :: "SourceFile \<Rightarrow> PrismaClientInstance list \<Rightarrow> Issue list" where
  "detectIssuesInFile sourceFile prismaInstances =
     concat (map (detectIssuesInFunction (filePath sourceFile)) (functionsOf sourceFile))"


text \<open>
  The two loops written as one recursion over the operation sequence: a write outside a
  transaction is paired with every later read that is neither in a transaction nor routed
  to the primary. \<open>writeLoop_eq\<close> below shows that the loops compute exactly this.
\<close>

definition writable :: "PrismaOperation \<Rightarrow> bool" where
  "writable w = (type w = Write \<and> \<not> inTransaction w)"

definition readable :: "PrismaOperation \<Rightarrow> bool" where
  "readable r = (type r = Read \<and> \<not> inTransaction r \<and> \<not> usesPrimary r)"

fun pairsFrom :: "PrismaOperation list \<Rightarrow> Issue list" where
  "pairsFrom [] = []"
| "pairsFrom (w # rest) =
     (if writable w then map (mkIssue w) (filter readable rest) else []) @ pairsFrom rest"

section \<open>Client instance detector\<close>

fun isPrismaClientDeclaration :: "Node \<Rightarrow> bool" where
  "isPrismaClientDeclaration (VarDecl _ _ _ _ None) = False"
| "isPrismaClientDeclaration (VarDecl _ _ _ _ (Some (New _ e _))) =
     (getText e = ''PrismaClient'')"
| "isPrismaClientDeclaration (VarDecl _ _ _ _ (Some initializer)) =
     (includes_str (getText initializer) ''PrismaClient''
      \<or> includes_str (getText initializer) ''.$extends'')"
| "isPrismaClientDeclaration _ = False"

fun checkReadReplicaExtension :: "Node \<Rightarrow> bool" where
  "checkReadReplicaExtension (VarDecl _ _ _ _ None) = False"
| "checkReadReplicaExtension (VarDecl _ _ _ _ (Some initializer)) =
     (includes_str (getText initializer) ''readReplicas''
      \<or> includes_str (getText initializer) ''read-replicas'')"
| "checkReadReplicaExtension _ = False"

fun declarationInstance :: "string \<Rightarrow> Node \<Rightarrow> PrismaClientInstance list" where
  "declarationInstance path (VarDecl t ln nm pre ini) =
     (if isPrismaClientDeclaration (VarDecl t ln nm pre ini)
      then [\<lparr>name = nm, instanceFile = path, instanceLine = ln,
             hasReadReplicaExtension = checkReadReplicaExtension (VarDecl t ln nm pre ini)\<rparr>]
      else [])"
| "declarationInstance path _ = []"

definition detectPrismaClients :: "SourceFile list \<Rightarrow> PrismaClientInstance list" where
  "detectPrismaClients sourceFiles =
     concat (map (\<lambda>sourceFile.
       concat (map (\<lambda>declaration. declarationInstance (filePath sourceFile) (snd declaration))
                   (getDescendantsOfKind VariableDeclaration (sourceFileRef sourceFile))))
       sourceFiles)"

definition isPrismaClientReference :: "string \<Rightarrow> PrismaClientInstance list \<Rightarrow> bool" where
  "isPrismaClientReference identifierName prismaInstances =
     (\<exists>inst \<in> set prismaInstances. name inst = identifierName)"

section \<open>The analysis run\<close>

text \<open>
  What \<open>analyze\<close> reads from outside: whether the project path exists and is a directory,
  and the parsed source files of the project behind a \<open>tsconfig.json\<close>. A thrown
  \<open>Error\<close> is the left injection, with its message. Log lines are not part of the result.
\<close>

record Environment =
  pathExists :: "string \<Rightarrow> bool"
  isDirectory :: "string \<Rightarrow> bool"
  getSourceFiles :: "string \<Rightarrow> SourceFile list"

record AnalyzerOptions =
  projectPath :: string

definition analyze :: "Environment \<Rightarrow> AnalyzerOptions \<Rightarrow> string + AnalysisResult" where
  "analyze env options =
     (if \<not> pathExists env (projectPath options)
      then Inl (''Project path does not exist: '' @ projectPath options)
      else if \<not> isDirectory env (projectPath options)
      then Inl (''Project path is not a directory: '' @ projectPath options)
      else
        (let sourceFiles = getSourceFiles env (projectPath options @ ''/tsconfig.json'');
             prismaInstances = detectPrismaClients sourceFiles
         in if length prismaInstances = 0
            then Inr \<lparr>summary = \<lparr>totalIssues = 0, filesAnalyzed = length sourceFiles,
                                 executionTime = ''0s''\<rparr>,
                      issues = []\<rparr>
            else
              (let allIssues =
                     concat (map (\<lambda>sourceFile. detectIssuesInFile sourceFile prismaInstances)
                                 sourceFiles)
               in Inr \<lparr>summary = \<lparr>totalIssues = length allIssues,
                                    filesAnalyzed = length sourceFiles,
                                    executionTime = ''0s''\<rparr>,
                         issues = allIssues\<rparr>)))"

section \<open>Source shapes and sample programs\<close>

text \<open>
  Nodes whose text is the text of their parts put together: \<open>e.name\<close> for a property
  access, \<open>e(a, b)\<close> for a call.
\<close>

definition ident :: "string \<Rightarrow> Node" where
  "ident s = Other s []"

definition propertyAccessOf :: "Node \<Rightarrow> string \<Rightarrow> Node" where
  "propertyAccessOf e nm = PropertyAccess (getText e @ ''.'' @ nm) e nm"

fun joinTexts :: "Node list \<Rightarrow> string" where
  "joinTexts [] = []"
| "joinTexts [a] = getText a"
| "joinTexts (a # b # rest) = getText a @ '', '' @ joinTexts (b # rest)"

definition callOf :: "nat \<Rightarrow> nat \<Rightarrow> Node \<Rightarrow> Node list \<Rightarrow> Node" where
  "callOf ln col e args = Call (getText e @ ''('' @ joinTexts args @ '')'') ln col e args"

text \<open>\<open>client.entity.method()\<close> and \<open>client.$primary().entity.method()\<close> at a given line.\<close>

definition plainCall :: "string \<Rightarrow> nat \<Rightarrow> string \<Rightarrow> string \<Rightarrow> Node" where
  "plainCall client ln entity m =
     callOf ln 3 (propertyAccessOf (propertyAccessOf (ident client) entity) m) []"

definition primaryCall :: "string \<Rightarrow> nat \<Rightarrow> string \<Rightarrow> string \<Rightarrow> Node" where
  "primaryCall client ln entity m =
     callOf ln 3
       (propertyAccessOf
          (propertyAccessOf (callOf ln 3 (propertyAccessOf (ident client) ''$primary'') [])
             entity) m) []"

definition replicaCall :: "string \<Rightarrow> nat \<Rightarrow> string \<Rightarrow> string \<Rightarrow> Node" where
  "replicaCall client ln entity m =
     callOf ln 3
       (propertyAccessOf
          (propertyAccessOf (callOf ln 3 (propertyAccessOf (ident client) ''$replica'') [])
             entity) m) []"

text \<open>\<open>const prisma = new PrismaClient()\<close>.\<close>

definition clientDeclaration :: Node where
  "clientDeclaration =
     VarDecl ''prisma = new PrismaClient()'' 1 ''prisma'' []
       (Some (New ''new PrismaClient()'' (ident ''PrismaClient'') []))"

text \<open>A function declaration whose body is the given statements.\<close>

definition functionOf :: "string \<Rightarrow> Node list \<Rightarrow> Node" where
  "functionOf nm body = FunctionDecl (''function '' @ nm) [Other ''{}'' body]"

definition fileOf :: "string \<Rightarrow> Node list \<Rightarrow> SourceFile" where
  "fileOf path statements = \<lparr>filePath = path, root = Other path statements\<rparr>"

text \<open>Scenario D: create, findFirst, update, findUnique, none guarded.\<close>

definition scenarioD :: Node where
  "scenarioD = functionOf ''d''
     [plainCall ''prisma'' 3 ''user'' ''create'',
      plainCall ''prisma'' 4 ''user'' ''findFirst'',
      plainCall ''prisma'' 5 ''user'' ''update'',
      plainCall ''prisma'' 6 ''user'' ''findUnique'']"

definition scenarioDFile :: SourceFile where
  "scenarioDFile = fileOf ''src/d.ts'' [clientDeclaration, scenarioD]"

text \<open>Two writes, then three reads, the last one routed to a replica.\<close>

definition crossProduct :: Node where
  "crossProduct = functionOf ''cross''
     [plainCall ''prisma'' 3 ''user'' ''create'',
      plainCall ''prisma'' 4 ''post'' ''update'',
      plainCall ''prisma'' 5 ''user'' ''findMany'',
      plainCall ''prisma'' 6 ''post'' ''count'',
      replicaCall ''prisma'' 7 ''user'' ''findFirst'']"

definition crossProductFile :: SourceFile where
  "crossProductFile = fileOf ''src/cross.ts'' [clientDeclaration, crossProduct]"

text \<open>A write and a read in an arrow function inside a function declaration.\<close>

definition innerArrow :: Node where
  "innerArrow = Arrow ''() => {}''
     [Other ''{}'' [plainCall ''prisma'' 4 ''user'' ''create'',
                    plainCall ''prisma'' 5 ''user'' ''findMany'']]"

definition nestedOuter :: Node where
  "nestedOuter = functionOf ''outer'' [Other ''const f = '' [innerArrow]]"





text \<open>The same write and read, in a file that declares no client.\<close>

definition noClientFile :: SourceFile where
  "noClientFile = fileOf ''src/a.ts''
     [functionOf ''a'' [plainCall ''db'' 2 ''user'' ''create'',
                        plainCall ''db'' 3 ''user'' ''findMany'']]"

definition noClientEnv :: Environment where
  "noClientEnv = \<lparr>pathExists = (\<lambda>p. True), isDirectory = (\<lambda>p. True),
                   getSourceFiles = (\<lambda>p. [noClientFile])\<rparr>"

text \<open>\<open>prisma.$transaction(async (tx) => { tx.user.create(); tx.user.findMany() })\<close>.\<close>

definition transactionCall :: Node where
  "transactionCall =
     callOf 2 3 (propertyAccessOf (ident ''prisma'') ''$transaction'')
       [Arrow ''async (tx) => {}''
          [Other ''{}'' [plainCall ''tx'' 3 ''user'' ''create'',
                         plainCall ''tx'' 4 ''user'' ''findMany'']]]"


text \<open>An operation with no routing flag and outside any transaction, at column 3.\<close>

definition plainOp ::
  "PrismaOperationType \<Rightarrow> string \<Rightarrow> string \<Rightarrow> string \<Rightarrow> nat \<Rightarrow> PrismaOperation" where
  "plainOp ty m entity path ln =
     \<lparr>type = ty, method' = m, model = entity,
      location = \<lparr>file' = path, line = ln, column = 3\<rparr>,
      usesReplica = False, usesPrimary = False, inTransaction = False\<rparr>"

definition scenarioDEnv :: Environment where
  "scenarioDEnv = \<lparr>pathExists = (\<lambda>p. True), isDirectory = (\<lambda>p. True),
                    getSourceFiles = (\<lambda>p. [scenarioDFile])\<rparr>"

text \<open>
  The four reasons the specification lists for an absent classification: the callee is no
  property access, the method is in neither set, the inner expression is no property
  access, or the inner name is \<open>$primary\<close> or \<open>$replica\<close>.
\<close>

fun listedAbsent :: "Node \<Rightarrow> bool" where
  "listedAbsent (Call _ _ _ (PropertyAccess _ (PropertyAccess _ _ nm) m) _) =
     (m \<notin> WRITE_METHODS \<union> READ_METHODS \<or> nm = ''$primary'' \<or> nm = ''$replica'')"
| "listedAbsent _ = True"

text \<open>\<open>prisma..findMany()\<close>: the parser fills the missing name in with an empty identifier.\<close>

definition emptyNameCall :: Node where
  "emptyNameCall =
     callOf 1 1 (propertyAccessOf (propertyAccessOf (ident ''prisma'') []) ''findMany'') []"

text \<open>
  \<open>prisma.$primary( ).user.findMany()\<close>, with a blank between the parentheses, and
  \<open>prisma .$primary() .user .findMany()\<close>, with blanks before the dots.
\<close>

definition spacedPrimaryCall :: Node where
  "spacedPrimaryCall =
     Call ''prisma.$primary( ).user.findMany()'' 3 3
       (PropertyAccess ''prisma.$primary( ).user.findMany''
          (PropertyAccess ''prisma.$primary( ).user''
             (Call ''prisma.$primary( )'' 3 3
                (PropertyAccess ''prisma.$primary'' (ident ''prisma'') ''$primary'') [])
             ''user'')
          ''findMany'') []"

definition spreadPrimaryCall :: Node where
  "spreadPrimaryCall =
     Call ''prisma .$primary() .user .findMany()'' 3 3
       (PropertyAccess ''prisma .$primary() .user .findMany''
          (PropertyAccess ''prisma .$primary() .user''
             (Call ''prisma .$primary()'' 3 3
                (PropertyAccess ''prisma .$primary'' (ident ''prisma'') ''$primary'') [])
             ''user'')
          ''findMany'') []"







section \<open>Traversal of the tree\<close>

text \<open>
  The descendants of a node come in one block of the traversal, each with an ancestor
  chain that ends in the chain of the node; a node is below another exactly when the
  other one is on its chain.
\<close>

lemma descendantsOfList_Nil [simp]: "descendantsOfList ps [] = []"
  by (simp add: descendantsOfList_def)

lemma descendantsOfList_Cons [simp]:
  "descendantsOfList ps (c # cs) = (ps, c) # getDescendants ps c @ descendantsOfList ps cs"
  by (simp add: descendantsOfList_def)

lemma descendantsOfList_append [simp]:
  "descendantsOfList ps (cs @ ds) = descendantsOfList ps cs @ descendantsOfList ps ds"
  by (simp add: descendantsOfList_def)

lemma getDescendants_children:
  "getDescendants ps n = descendantsOfList (n # ps) (children n)"
  by (subst getDescendants.simps) (simp add: descendantsOfList_def)

lemma getDescendants_constructors [simp]:
  "getDescendants ps (Call t ln col e args) = descendantsOfList (Call t ln col e args # ps) (e # args)"
  "getDescendants ps (PropertyAccess t e nm) = descendantsOfList (PropertyAccess t e nm # ps) [e]"
  "getDescendants ps (New t e args) = descendantsOfList (New t e args # ps) (e # args)"
  "getDescendants ps (VarDecl t ln nm pre ini) =
     descendantsOfList (VarDecl t ln nm pre ini # ps) (pre @ (case ini of None \<Rightarrow> [] | Some i \<Rightarrow> [i]))"
  "getDescendants ps (FunctionDecl t cs) = descendantsOfList (FunctionDecl t cs # ps) cs"
  "getDescendants ps (Arrow t cs) = descendantsOfList (Arrow t cs # ps) cs"
  "getDescendants ps (FunctionExpr t cs) = descendantsOfList (FunctionExpr t cs # ps) cs"
  "getDescendants ps (MethodDecl t cs) = descendantsOfList (MethodDecl t cs # ps) cs"
  "getDescendants ps (Other t cs) = descendantsOfList (Other t cs # ps) cs"
  by (simp_all add: getDescendants_children)

lemma getDescendants_parents:
  "r \<in> set (getDescendants ps n) \<Longrightarrow> \<exists>xs. fst r = xs @ n # ps"
proof (induction ps n arbitrary: r rule: getDescendants.induct)
  case (1 parents n)
  from "1.prems" have "r \<in> set (descendantsOfList (n # parents) (children n))"
    by (simp add: getDescendants_children)
  then obtain c where c: "c \<in> set (children n)"
    and r: "r = (n # parents, c) \<or> r \<in> set (getDescendants (n # parents) c)"
    by (auto simp: descendantsOfList_def)
  from r show ?case
  proof
    assume "r = (n # parents, c)"
    then have "fst r = [] @ n # parents" by simp
    then show ?thesis by blast
  next
    assume "r \<in> set (getDescendants (n # parents) c)"
    with "1.IH"[OF c] obtain xs where "fst r = xs @ c # n # parents" by blast
    then have "fst r = (xs @ [c]) @ n # parents" by simp
    then show ?thesis by blast
  qed
qed













section \<open>Substring test\<close>

lemma includes_str_iff: "includes_str s sub \<longleftrightarrow> (\<exists>pre post. s = pre @ sub @ post)"
proof (induction s)
  case Nil
  then show ?case by auto
next
  case (Cons c cs)
  show ?case
  proof
    assume "includes_str (c # cs) sub"
    then consider "prefix sub (c # cs)" | "includes_str cs sub" by auto
    then show "\<exists>pre post. c # cs = pre @ sub @ post"
    proof cases
      case 1
      then obtain post where "c # cs = sub @ post" by (auto simp: prefix_def)
      then have "c # cs = [] @ sub @ post" by simp
      then show ?thesis by blast
    next
      case 2
      with Cons obtain pre post where "cs = pre @ sub @ post" by auto
      then have "c # cs = (c # pre) @ sub @ post" by simp
      then show ?thesis by blast
    qed
  next
    assume "\<exists>pre post. c # cs = pre @ sub @ post"
    then obtain pre post where e: "c # cs = pre @ sub @ post" by auto
    show "includes_str (c # cs) sub"
    proof (cases pre)
      case Nil
      with e have "prefix sub (c # cs)" by (simp add: prefix_def)
      then show ?thesis by simp
    next
      case (Cons a pre')
      with e have "cs = pre' @ sub @ post" by simp
      with Cons.IH have "includes_str cs sub" by blast
      then show ?thesis by simp
    qed
  qed
qed

section \<open>Facts about the classifier\<close>

lemma replicaWalk_exclusive: "replicaWalk n \<noteq> (True, True)"
proof (induction n rule: replicaWalk.induct)
  case (1 current)
  then show ?case
    by (subst replicaWalk.simps) (auto split: Node.splits)
qed

lemma checkReplicaUsage_exclusive: "checkReplicaUsage n \<noteq> (True, True)"
  by (cases n) (simp_all add: replicaWalk_exclusive)

lemma classifyOperation_SomeE:
  assumes "classifyOperation path r = Some op"
  obtains parents t ln col pt pe m args nm where
    "r = (parents, Call t ln col (PropertyAccess pt pe m) args)"
    "m \<in> WRITE_METHODS \<union> READ_METHODS"
    "extractModelName (PropertyAccess pt pe m) = Some nm" "nm \<noteq> []"
    "op = \<lparr>type = (if m \<in> WRITE_METHODS then Write else Read), method' = m, model = nm,
           location = \<lparr>file' = path, line = ln, column = col\<rparr>,
           usesReplica = snd (checkReplicaUsage (PropertyAccess pt pe m)),
           usesPrimary = fst (checkReplicaUsage (PropertyAccess pt pe m)),
           inTransaction = isInTransaction parents\<rparr>"
proof -
  obtain parents n where r: "r = (parents, n)" by (cases r)
  show ?thesis
  proof (cases n)
    case (Call t ln col callee args)
    show ?thesis
    proof (cases callee)
      case (PropertyAccess pt pe m)
      with assms r Call that[of parents t ln col pt pe m args] show ?thesis
        by (auto split: if_splits option.splits prod.splits)
    qed (use assms r Call in simp_all)
  qed (use assms r in simp_all)
qed

lemma classifyOperation_flags:
  assumes "classifyOperation path r = Some op"
  shows "\<not> (usesPrimary op \<and> usesReplica op)"
  using assms
proof (elim classifyOperation_SomeE)
  fix pt pe m nm ln col parents
  assume "op = \<lparr>type = (if m \<in> WRITE_METHODS then Write else Read), method' = m, model = nm,
           location = \<lparr>file' = path, line = ln, column = col\<rparr>,
           usesReplica = snd (checkReplicaUsage (PropertyAccess pt pe m)),
           usesPrimary = fst (checkReplicaUsage (PropertyAccess pt pe m)),
           inTransaction = isInTransaction parents\<rparr>"
  then show ?thesis
    using checkReplicaUsage_exclusive[of "PropertyAccess pt pe m"]
    by (cases "checkReplicaUsage (PropertyAccess pt pe m)") auto
qed

lemma classifyOperation_inTransaction:
  "classifyOperation path (parents, n) = Some op \<Longrightarrow> inTransaction op = isInTransaction parents"
  by (elim classifyOperation_SomeE) auto

lemma classifyOperation_type:
  "classifyOperation path r = Some op \<Longrightarrow>
     method' op \<in> WRITE_METHODS \<union> READ_METHODS
     \<and> type op = (if method' op \<in> WRITE_METHODS then Write else Read)"
  by (elim classifyOperation_SomeE) auto

lemma isInTransaction_iff: "isInTransaction ps \<longleftrightarrow> (\<exists>p \<in> set ps. isTransactionCall p)"
  by (induction ps) auto

section \<open>The loops of the issue detector\<close>

text \<open>
  The two index loops compute \<open>pairsFrom\<close> of the operation sequence.
\<close>

lemma readLoop_eq:
  "readLoop ops w j acc = acc @ map (mkIssue w) (filter readable (map operation (drop j ops)))"
proof (induction ops w j acc rule: readLoop.induct)
  case (1 ops w j acc)
  show ?case
  proof (cases "j < length ops")
    case True
    then have d: "drop j ops = ops ! j # drop (j + 1) ops"
      by (simp add: Cons_nth_drop_Suc)
    have r: "readable (operation (ops ! j)) \<longleftrightarrow>
        type (operation (ops ! j)) = Read \<and> \<not> inTransaction (operation (ops ! j))
          \<and> \<not> usesPrimary (operation (ops ! j))"
      by (simp add: readable_def)
    show ?thesis
      using True 1 by (subst readLoop.simps) (simp add: d Let_def r)
  next
    case False
    then show ?thesis by (subst readLoop.simps) simp
  qed
qed

lemma writeLoop_eq:
  "writeLoop ops i acc = acc @ pairsFrom (map operation (drop i ops))"
proof (induction ops i acc rule: writeLoop.induct)
  case (1 ops i acc)
  show ?case
  proof (cases "i < length ops")
    case True
    then have d: "drop i ops = ops ! i # drop (i + 1) ops"
      by (simp add: Cons_nth_drop_Suc)
    have r: "writable (operation (ops ! i)) \<longleftrightarrow>
        type (operation (ops ! i)) = Write \<and> \<not> inTransaction (operation (ops ! i))"
      by (simp add: writable_def)
    show ?thesis
      using True 1 by (subst writeLoop.simps) (simp add: d Let_def r readLoop_eq)
  next
    case False
    then show ?thesis by (subst writeLoop.simps) simp
  qed
qed

lemma detect_pairs:
  "detectIssuesInFunction path func = pairsFrom (map operation (collectOperations path func))"
  by (simp add: detectIssuesInFunction_def writeLoop_eq)

lemma mkIssue_sel [simp]:
  "writeOperation (mkIssue w r) = w" "readOperation (mkIssue w r) = r"
  "severity (mkIssue w r) = Error"
  by (simp_all add: mkIssue_def)

lemma mkIssue_inject [simp]: "mkIssue w r = mkIssue w' r' \<longleftrightarrow> w = w' \<and> r = r'"
proof
  assume h: "mkIssue w r = mkIssue w' r'"
  then have "writeOperation (mkIssue w r) = writeOperation (mkIssue w' r')"
    and "readOperation (mkIssue w r) = readOperation (mkIssue w' r')" by simp_all
  then show "w = w' \<and> r = r'" by simp
qed simp

lemma pairsFrom_member:
  "x \<in> set (pairsFrom ops) \<Longrightarrow>
     \<exists>w r. x = mkIssue w r \<and> writable w \<and> readable r \<and> w \<in> set ops \<and> r \<in> set ops"
  by (induction ops) (auto split: if_splits)

lemma pairsFrom_nth:
  assumes "i < j" "j < length ops" "writable (ops ! i)" "readable (ops ! j)"
  shows "mkIssue (ops ! i) (ops ! j) \<in> set (pairsFrom ops)"
  using assms
proof (induction ops arbitrary: i j)
  case Nil
  then show ?case by simp
next
  case (Cons a ops)
  show ?case
  proof (cases i)
    case 0
    with Cons.prems obtain j' where j': "j = Suc j'" "j' < length ops"
      by (cases j) auto
    with Cons.prems 0 show ?thesis by auto
  next
    case (Suc i')
    with Cons.prems obtain j' where j': "j = Suc j'" "j' < length ops" "i' < j'"
      by (cases j) auto
    with Cons.prems Suc have "mkIssue (ops ! i') (ops ! j') \<in> set (pairsFrom ops)"
      by (intro Cons.IH) auto
    with Suc j' show ?thesis by simp
  qed
qed

lemma pairsFrom_replica_flag:
  "pairsFrom (map (\<lambda>p. p\<lparr>usesReplica := f p\<rparr>) ops) =
     map (\<lambda>x. x\<lparr>writeOperation := (writeOperation x)\<lparr>usesReplica := f (writeOperation x)\<rparr>,
                readOperation := (readOperation x)\<lparr>usesReplica := f (readOperation x)\<rparr>\<rparr>)
         (pairsFrom ops)"
proof (induction ops)
  case Nil
  then show ?case by simp
next
  case (Cons a ops)
  have f: "filter readable (map (\<lambda>p. p\<lparr>usesReplica := f p\<rparr>) ops)
      = map (\<lambda>p. p\<lparr>usesReplica := f p\<rparr>) (filter readable ops)"
    by (induction ops) (simp_all add: readable_def)
  show ?case using Cons
    by (simp add: f writable_def) (simp add: mkIssue_def)
qed

lemma pairsFrom_reads: "\<forall>r \<in> set rs. type r = Read \<Longrightarrow> pairsFrom rs = []"
  by (induction rs) (auto simp: writable_def)

lemma pairsFrom_writes_reads:
  assumes "\<forall>w \<in> set ws. type w = Write \<and> \<not> inTransaction w"
    and "\<forall>r \<in> set rs. type r = Read \<and> \<not> inTransaction r \<and> \<not> usesPrimary r"
  shows "pairsFrom (ws @ rs) = concat (map (\<lambda>w. map (mkIssue w) rs) ws)"
  using assms
proof (induction ws)
  case Nil
  then show ?case by (simp add: pairsFrom_reads)
next
  case (Cons w ws)
  have "filter readable (ws @ rs) = rs"
    using Cons.prems by (auto simp: readable_def filter_empty_conv filter_id_conv)
  with Cons show ?case by (simp add: writable_def)
qed





section \<open>Counting\<close>














section \<open>Operations of nested constructs\<close>

text \<open>
  The operation sequence of a construct is one block of the operation sequence of every
  construct around it, so the issues of the inner construct are issues of the outer one.
\<close>

lemma collectOperations_classified:
  "p \<in> set (map operation (collectOperations path func)) \<Longrightarrow>
     \<exists>r. classifyOperation path r = Some p"
  by (auto simp: collectOperations_def List.map_filter_def) blast

lemma collected_type:
  assumes "p \<in> set (map operation (collectOperations path func))"
  shows "type p = (if method' p \<in> WRITE_METHODS then Write else Read)"
  using collectOperations_classified[OF assms] classifyOperation_type by blast















section \<open>The sample programs, evaluated\<close>

lemma plainCall_kind [simp]: "getKind (plainCall c ln e m) = CallExpression"
  by (simp add: plainCall_def callOf_def)

lemma plainCall_descendants [simp]:
  "k \<noteq> PropertyAccessExpression \<Longrightarrow> k \<noteq> OtherKind \<Longrightarrow>
     filter (\<lambda>d. getKind (snd d) = k) (getDescendants ps (plainCall c ln e m)) = []"
  by (simp add: plainCall_def callOf_def propertyAccessOf_def ident_def)

lemma plainCall_not_transaction [simp]: "m \<noteq> ''$transaction'' \<Longrightarrow> \<not> isTransactionCall (plainCall c ln e m)"
  by (simp add: plainCall_def callOf_def propertyAccessOf_def)

lemma classify_plainCall:
  assumes "m \<in> WRITE_METHODS \<union> READ_METHODS"
    and "e \<noteq> []" "e \<noteq> ''$primary''" "e \<noteq> ''$replica''"
    and "\<not> includes_str (c @ ''.'' @ e) ''$primary()''" and "\<not> includes_str (c @ ''.'' @ e) ''$replica()''"
    and "\<not> includes_str c ''$primary()''" and "\<not> includes_str c ''$replica()''"
  shows "classifyOperation path (ps, plainCall c ln e m) =
     Some ((plainOp (if m \<in> WRITE_METHODS then Write else Read) m e path ln)
             \<lparr>inTransaction := isInTransaction ps\<rparr>)"
  using assms by (auto simp: plainCall_def callOf_def propertyAccessOf_def ident_def plainOp_def replicaWalk.simps)

lemma replicaCall_kind [simp]: "getKind (replicaCall c ln e m) = CallExpression"
  by (simp add: replicaCall_def callOf_def)

lemma replicaCall_calls:
  "filter (\<lambda>d. getKind (snd d) = CallExpression) (getDescendants ps (replicaCall c ln e m)) =
     [(propertyAccessOf (callOf ln 3 (propertyAccessOf (ident c) ''$replica'') []) e
         # propertyAccessOf (propertyAccessOf (callOf ln 3 (propertyAccessOf (ident c) ''$replica'') []) e) m
         # replicaCall c ln e m # ps,
       callOf ln 3 (propertyAccessOf (ident c) ''$replica'') [])]"
  by (simp add: replicaCall_def callOf_def propertyAccessOf_def ident_def)

lemma classify_routing_segment [simp]:
  "classifyOperation path (ps, callOf ln col (propertyAccessOf x ''$replica'') args) = None"
  "classifyOperation path (ps, callOf ln col (propertyAccessOf x ''$primary'') args) = None"
  by (simp_all add: callOf_def propertyAccessOf_def WRITE_METHODS_def READ_METHODS_def)

lemma replicaCall_not_transaction [simp]:
  "m \<noteq> ''$transaction'' \<Longrightarrow> \<not> isTransactionCall (replicaCall c ln e m)"
  by (simp add: replicaCall_def callOf_def propertyAccessOf_def)

lemma classify_replicaCall:
  assumes "m \<in> WRITE_METHODS \<union> READ_METHODS"
    and "e \<noteq> []" "e \<noteq> ''$primary''" "e \<noteq> ''$replica''"
    and "\<not> includes_str (c @ ''.$replica().'' @ e) ''$primary()''"
  shows "classifyOperation path (ps, replicaCall c ln e m) =
     Some ((plainOp (if m \<in> WRITE_METHODS then Write else Read) m e path ln)
             \<lparr>usesReplica := True, inTransaction := isInTransaction ps\<rparr>)"
proof -
  have "c @ ''.$replica().'' @ e = (c @ ''.'') @ ''$replica()'' @ (''.'' @ e)" by simp
  then have "includes_str (c @ ''.$replica().'' @ e) ''$replica()''"
    unfolding includes_str_iff by blast
  with assms show ?thesis
    by (auto simp: replicaCall_def callOf_def propertyAccessOf_def ident_def plainOp_def
        replicaWalk.simps)
qed

lemma collect_scenarioD:
  "map operation (collectOperations ''src/d.ts'' (ps, scenarioD)) =
     [(plainOp Write ''create'' ''user'' ''src/d.ts'' 3)\<lparr>inTransaction := isInTransaction ps\<rparr>,
      (plainOp Read ''findFirst'' ''user'' ''src/d.ts'' 4)\<lparr>inTransaction := isInTransaction ps\<rparr>,
      (plainOp Write ''update'' ''user'' ''src/d.ts'' 5)\<lparr>inTransaction := isInTransaction ps\<rparr>,
      (plainOp Read ''findUnique'' ''user'' ''src/d.ts'' 6)\<lparr>inTransaction := isInTransaction ps\<rparr>]"
  by (simp add: scenarioD_def functionOf_def getDescendantsOfKind_def collectOperations_def
      List.map_filter_simps classify_plainCall WRITE_METHODS_def READ_METHODS_def)

lemma collect_crossProduct:
  "map operation (collectOperations ''src/cross.ts'' ([], crossProduct)) =
     [plainOp Write ''create'' ''user'' ''src/cross.ts'' 3,
      plainOp Write ''update'' ''post'' ''src/cross.ts'' 4]
     @ [plainOp Read ''findMany'' ''user'' ''src/cross.ts'' 5,
        plainOp Read ''count'' ''post'' ''src/cross.ts'' 6,
        (plainOp Read ''findFirst'' ''user'' ''src/cross.ts'' 7)\<lparr>usesReplica := True\<rparr>]"
  by (simp add: crossProduct_def functionOf_def getDescendantsOfKind_def collectOperations_def
      List.map_filter_simps classify_plainCall classify_replicaCall replicaCall_calls
      WRITE_METHODS_def READ_METHODS_def)
     (simp add: plainOp_def)

lemma detect_scenarioDFile:
  "detectIssuesInFile scenarioDFile insts =
     [mkIssue (plainOp Write ''create'' ''user'' ''src/d.ts'' 3)
              (plainOp Read ''findFirst'' ''user'' ''src/d.ts'' 4),
      mkIssue (plainOp Write ''create'' ''user'' ''src/d.ts'' 3)
              (plainOp Read ''findUnique'' ''user'' ''src/d.ts'' 6),
      mkIssue (plainOp Write ''update'' ''user'' ''src/d.ts'' 5)
              (plainOp Read ''findUnique'' ''user'' ''src/d.ts'' 6)]"
  by (simp add: detectIssuesInFile_def functionsOf_def scenarioDFile_def scenarioD_def
      clientDeclaration_def ident_def fileOf_def
      functionOf_def getDescendantsOfKind_def sourceFileRef_def detect_pairs
      collectOperations_def List.map_filter_simps classify_plainCall
      WRITE_METHODS_def READ_METHODS_def writable_def readable_def plainOp_def)

lemma clients_scenarioDFile:
  "detectPrismaClients [scenarioDFile] =
     [\<lparr>name = ''prisma'', instanceFile = ''src/d.ts'', instanceLine = 1,
       hasReadReplicaExtension = False\<rparr>]"
  by (simp add: detectPrismaClients_def scenarioDFile_def fileOf_def clientDeclaration_def
      ident_def getDescendantsOfKind_def sourceFileRef_def scenarioD_def functionOf_def)

lemma no_clients_noClientFile: "detectPrismaClients [noClientFile] = []"
  by (simp add: detectPrismaClients_def noClientFile_def fileOf_def functionOf_def
      getDescendantsOfKind_def sourceFileRef_def)

lemma detect_noClientFile:
  "detectIssuesInFile noClientFile []
     = [mkIssue (plainOp Write ''create'' ''user'' ''src/a.ts'' 2)
                (plainOp Read ''findMany'' ''user'' ''src/a.ts'' 3)]"
  by (simp add: detectIssuesInFile_def functionsOf_def noClientFile_def fileOf_def
      functionOf_def getDescendantsOfKind_def sourceFileRef_def detect_pairs
      collectOperations_def List.map_filter_simps classify_plainCall
      WRITE_METHODS_def READ_METHODS_def writable_def readable_def plainOp_def)

lemma functionOf_simps [simp]:
  "getDescendants ps (functionOf nm body) =
     (functionOf nm body # ps, Other ''{}'' body)
       # descendantsOfList (Other ''{}'' body # functionOf nm body # ps) body"
  "getKind (functionOf nm body) = FunctionDeclaration"
  "\<not> isTransactionCall (functionOf nm body)"
  by (simp_all add: functionOf_def)

lemma innerArrow_simps [simp]:
  "getDescendants ps innerArrow =
     descendantsOfList (innerArrow # ps)
       [Other ''{}'' [plainCall ''prisma'' 4 ''user'' ''create'',
                      plainCall ''prisma'' 5 ''user'' ''findMany'']]"
  "getKind innerArrow = ArrowFunction"
  "\<not> isTransactionCall innerArrow"
  by (simp_all add: innerArrow_def)

lemma clientDeclaration_simps [simp]:
  "getKind clientDeclaration = VariableDeclaration"
  "k \<noteq> VariableDeclaration \<Longrightarrow> k \<noteq> NewExpression \<Longrightarrow> k \<noteq> OtherKind \<Longrightarrow>
     filter (\<lambda>d. getKind (snd d) = k) (getDescendants ps clientDeclaration) = []"
  by (simp_all add: clientDeclaration_def ident_def)


lemma nestedOuter_simps [simp]:
  "getDescendants ps nestedOuter =
     (nestedOuter # ps, Other ''{}'' [Other ''const f = '' [innerArrow]])
       # descendantsOfList (Other ''{}'' [Other ''const f = '' [innerArrow]] # nestedOuter # ps)
           [Other ''const f = '' [innerArrow]]"
  "getKind nestedOuter = FunctionDeclaration"
  "\<not> isTransactionCall nestedOuter"
  by (simp_all add: nestedOuter_def)










lemma propertyAccessOf_not_transaction [simp]: "\<not> isTransactionCall (propertyAccessOf e nm)"
  by (simp add: propertyAccessOf_def)







section \<open>The claims\<close>

text \<open>
  Claim C1. When the operation sequence of a construct is \<open>w\<close> writes outside any
  transaction followed by \<open>r\<close> reads that are neither in a transaction nor routed to the
  primary, the detector emits one issue for every write and every read, \<open>w * r\<close> issues
  in all, in the order of the pairs.
\<close>

theorem pairing_count:
  assumes "map operation (collectOperations path func) = ws @ rs"
    and "\<forall>w \<in> set ws. type w = Write \<and> \<not> inTransaction w"
    and "\<forall>r \<in> set rs. type r = Read \<and> \<not> inTransaction r \<and> \<not> usesPrimary r"
  shows "detectIssuesInFunction path func = concat (map (\<lambda>w. map (mkIssue w) rs) ws)
    \<and> length (detectIssuesInFunction path func) = length ws * length rs"
proof -
  have e: "detectIssuesInFunction path func = concat (map (\<lambda>w. map (mkIssue w) rs) ws)"
    using assms by (simp add: detect_pairs pairsFrom_writes_reads)
  have "length (concat (map (\<lambda>w. map (mkIssue w) rs) ws)) = length ws * length rs"
    by (induction ws) simp_all
  with e show ?thesis by simp
qed

theorem pairing_count_witness:
  "length (detectIssuesInFunction ''src/cross.ts'' ([], crossProduct)) = 2 * 3"
proof -
  have w: "\<forall>w \<in> set [plainOp Write ''create'' ''user'' ''src/cross.ts'' 3,
                        plainOp Write ''update'' ''post'' ''src/cross.ts'' 4].
             type w = Write \<and> \<not> inTransaction w"
    by (simp add: plainOp_def)
  have r: "\<forall>r \<in> set [plainOp Read ''findMany'' ''user'' ''src/cross.ts'' 5,
                        plainOp Read ''count'' ''post'' ''src/cross.ts'' 6,
                        (plainOp Read ''findFirst'' ''user'' ''src/cross.ts'' 7)\<lparr>usesReplica := True\<rparr>].
             type r = Read \<and> \<not> inTransaction r \<and> \<not> usesPrimary r"
    by (simp add: plainOp_def)
  show ?thesis
    using pairing_count[OF collect_crossProduct w r] by simp
qed

text \<open>
  Claim C2. Every issue of a file pairs a write that is not in a transaction with a read
  that is neither in a transaction nor routed to the primary.
\<close>

theorem issue_flags_invariant:
  "\<forall>x \<in> set (detectIssuesInFile sourceFile prismaInstances).
     type (writeOperation x) = Write \<and> \<not> inTransaction (writeOperation x)
     \<and> type (readOperation x) = Read \<and> \<not> inTransaction (readOperation x)
     \<and> \<not> usesPrimary (readOperation x)"
proof
  fix x assume "x \<in> set (detectIssuesInFile sourceFile prismaInstances)"
  then obtain func where "x \<in> set (detectIssuesInFunction (filePath sourceFile) func)"
    by (auto simp: detectIssuesInFile_def)
  then obtain w r where "x = mkIssue w r" "writable w" "readable r"
    by (auto simp: detect_pairs dest: pairsFrom_member)
  then show "type (writeOperation x) = Write \<and> \<not> inTransaction (writeOperation x)
     \<and> type (readOperation x) = Read \<and> \<not> inTransaction (readOperation x)
     \<and> \<not> usesPrimary (readOperation x)"
    by (simp add: writable_def readable_def)
qed

theorem issue_flags_invariant_witness:
  "mkIssue (plainOp Write ''create'' ''user'' ''src/d.ts'' 3)
           (plainOp Read ''findFirst'' ''user'' ''src/d.ts'' 4)
     \<in> set (detectIssuesInFile scenarioDFile [])
   \<and> \<not> inTransaction (plainOp Write ''create'' ''user'' ''src/d.ts'' 3)
   \<and> \<not> inTransaction (plainOp Read ''findFirst'' ''user'' ''src/d.ts'' 4)
   \<and> \<not> usesPrimary (plainOp Read ''findFirst'' ''user'' ''src/d.ts'' 4)"
proof -
  have m: "mkIssue (plainOp Write ''create'' ''user'' ''src/d.ts'' 3)
           (plainOp Read ''findFirst'' ''user'' ''src/d.ts'' 4)
     \<in> set (detectIssuesInFile scenarioDFile [])"
    by (simp add: detect_scenarioDFile)
  show ?thesis
    using m issue_flags_invariant[of scenarioDFile "[]", THEN bspec, OF m] by simp
qed

text \<open>
  Claim C3, as the code has it. On a valid project path the run returns the issues of the
  per-file pairing, whatever the list of detected clients holds, as long as that list is
  not empty; when no client is detected the run returns no issue at all.
\<close>

theorem analysis_pairing_gate:
  assumes "pathExists env (projectPath options)" and "isDirectory env (projectPath options)"
    and "sourceFiles = getSourceFiles env (projectPath options @ ''/tsconfig.json'')"
  shows "\<exists>res. analyze env options = Inr res
    \<and> issues res =
        (if detectPrismaClients sourceFiles = [] then []
         else concat (map (\<lambda>sourceFile. detectIssuesInFile sourceFile anyInstances) sourceFiles))
    \<and> totalIssues (summary res) = length (issues res)
    \<and> filesAnalyzed (summary res) = length sourceFiles"
  using assms by (simp add: analyze_def Let_def detectIssuesInFile_def)

theorem analysis_pairing_gate_witness:
  "\<exists>res. analyze scenarioDEnv \<lparr>projectPath = ''p''\<rparr> = Inr res
     \<and> issues res = detectIssuesInFile scenarioDFile [] \<and> totalIssues (summary res) = 3"
proof -
  have a: "pathExists scenarioDEnv (projectPath \<lparr>projectPath = ''p''\<rparr>)"
    and b: "isDirectory scenarioDEnv (projectPath \<lparr>projectPath = ''p''\<rparr>)"
    and c: "[scenarioDFile] = getSourceFiles scenarioDEnv (projectPath \<lparr>projectPath = ''p''\<rparr> @ ''/tsconfig.json'')"
    by (simp_all add: scenarioDEnv_def)
  show ?thesis
    using analysis_pairing_gate[OF a b c, of "[]"]
    by (auto simp: clients_scenarioDFile detect_scenarioDFile)
qed

text \<open>
  A file with a write and a later read but without any client declaration: the pairing
  finds an issue, the run reports none.
\<close>

theorem analysis_gate_counterexample:
  "detectPrismaClients [noClientFile] = []
   \<and> analyze noClientEnv \<lparr>projectPath = ''p''\<rparr>
       = Inr \<lparr>summary = \<lparr>totalIssues = 0, filesAnalyzed = 1, executionTime = ''0s''\<rparr>,
              issues = []\<rparr>
   \<and> detectIssuesInFile noClientFile [] \<noteq> []"
  using no_clients_noClientFile detect_noClientFile
  by (simp add: analyze_def noClientEnv_def)




text \<open>
  Claim C5, as the code has it. A call is left unclassified exactly when its callee is no
  property access, or the method is in neither set, or the inner expression is no
  property access, or the inner name is \<open>$primary\<close>, \<open>$replica\<close> or empty.
\<close>

theorem classify_absent_iff:
  "classifyOperation path (parents, Call t ln col callee args) = None \<longleftrightarrow>
     (case callee of
        PropertyAccess _ inner m \<Rightarrow>
          m \<notin> WRITE_METHODS \<union> READ_METHODS
          \<or> (case inner of
                PropertyAccess _ _ nm \<Rightarrow> nm = ''$primary'' \<or> nm = ''$replica'' \<or> nm = []
              | _ \<Rightarrow> True)
      | _ \<Rightarrow> True)"
proof (cases callee)
  case (PropertyAccess pt inner m)
  show ?thesis
  proof (cases inner)
    case (PropertyAccess it ie nm)
    with \<open>callee = PropertyAccess pt inner m\<close> show ?thesis
      by (cases "replicaWalk (PropertyAccess it ie nm)") auto
  qed (use \<open>callee = PropertyAccess pt inner m\<close> in auto)
qed simp_all

theorem classify_absent_iff_witness:
  "classifyOperation ''a.ts'' ([], plainCall ''prisma'' 3 ''user'' ''create'') \<noteq> None
   \<and> classifyOperation ''a.ts'' ([], emptyNameCall) = None
   \<and> classifyOperation ''a.ts'' ([], callOf 1 1 (ident ''f'') []) = None"
  using classify_absent_iff[of "''a.ts''" "[]" "''prisma.user.create()''" 3 3
      "propertyAccessOf (propertyAccessOf (ident ''prisma'') ''user'') ''create''" "[]"]
    classify_absent_iff[of "''a.ts''" "[]" "''prisma..findMany()''" 1 1
      "propertyAccessOf (propertyAccessOf (ident ''prisma'') []) ''findMany''" "[]"]
    classify_absent_iff[of "''a.ts''" "[]" "''f()''" 1 1 "ident ''f''" "[]"]
  by (simp add: plainCall_def emptyNameCall_def callOf_def propertyAccessOf_def ident_def
      WRITE_METHODS_def READ_METHODS_def)

text \<open>
  The four listed reasons alone miss the empty name: \<open>prisma..findMany()\<close> meets none
  of them and is not classified.
\<close>

theorem classify_absent_counterexample:
  "\<not> (classifyOperation ''a.ts'' ([], emptyNameCall) = None \<longleftrightarrow> listedAbsent emptyNameCall)"
  by (simp add: emptyNameCall_def callOf_def propertyAccessOf_def ident_def
      WRITE_METHODS_def READ_METHODS_def)

text \<open>
  Claim C6, as the code has it. A call \<open>client.$primary().entity.method(...)\<close> with a
  read or write method and an entity name (not empty, not \<open>$primary\<close>, not
  \<open>$replica\<close>) is classified with that entity, with primary routing and without replica
  routing, whenever the source text of \<open>client.$primary().entity\<close> contains
  \<open>$primary()\<close> letter for letter.
\<close>

theorem primary_chain_classified:
  assumes "m \<in> WRITE_METHODS \<union> READ_METHODS"
    and "entity \<noteq> []" and "entity \<noteq> ''$primary''" and "entity \<noteq> ''$replica''"
    and "includes_str et ''$primary()''"
  shows "\<exists>op. classifyOperation path
            (parents,
             Call t ln col
               (PropertyAccess pt
                  (PropertyAccess et
                     (Call ct pl pc (PropertyAccess qt client ''$primary'') []) entity)
                  m) args) = Some op
          \<and> model op = entity \<and> usesPrimary op \<and> \<not> usesReplica op"
proof -
  from assms(5) have "replicaWalk (PropertyAccess et
      (Call ct pl pc (PropertyAccess qt client ''$primary'') []) entity) = (True, False)"
    by (subst replicaWalk.simps) simp
  with assms(1-4) show ?thesis by auto
qed

theorem primary_chain_classified_witness:
  "(\<exists>op. classifyOperation ''a.ts'' ([], primaryCall ''prisma'' 3 ''user'' ''findMany'') = Some op
      \<and> model op = ''user'' \<and> usesPrimary op \<and> \<not> usesReplica op)
   \<and> (\<exists>op. classifyOperation ''a.ts'' ([], spreadPrimaryCall) = Some op
      \<and> model op = ''user'' \<and> usesPrimary op \<and> \<not> usesReplica op)"
proof -
  have m: "''findMany'' \<in> WRITE_METHODS \<union> READ_METHODS" by (simp add: READ_METHODS_def)
  have e: "''user'' \<noteq> []" "''user'' \<noteq> ''$primary''" "''user'' \<noteq> ''$replica''" by simp_all
  have t1: "includes_str ''prisma.$primary().user'' ''$primary()''" by simp
  have t2: "includes_str ''prisma .$primary() .user'' ''$primary()''" by simp
  have a: "\<exists>op. classifyOperation ''a.ts'' ([], primaryCall ''prisma'' 3 ''user'' ''findMany'') = Some op
      \<and> model op = ''user'' \<and> usesPrimary op \<and> \<not> usesReplica op"
    using primary_chain_classified[OF m e t1, of "''a.ts''" "[]" "''prisma.$primary().user.findMany()''"
        3 3 "''prisma.$primary().user.findMany''" "''prisma.$primary()''" 3 3
        "''prisma.$primary''" "ident ''prisma''" "[]"]
    by (simp add: primaryCall_def callOf_def propertyAccessOf_def ident_def)
  have b: "\<exists>op. classifyOperation ''a.ts'' ([], spreadPrimaryCall) = Some op
      \<and> model op = ''user'' \<and> usesPrimary op \<and> \<not> usesReplica op"
    using primary_chain_classified[OF m e t2, of "''a.ts''" "[]" "''prisma .$primary() .user .findMany()''"
        3 3 "''prisma .$primary() .user .findMany''" "''prisma .$primary()''" 3 3
        "''prisma .$primary''" "ident ''prisma''" "[]"]
    by (simp add: spreadPrimaryCall_def)
  from a b show ?thesis by (rule conjI)
qed

text \<open>
  With a blank between the parentheses the text does not contain \<open>$primary()\<close>, and
  the call is classified without primary routing.
\<close>

theorem primary_chain_counterexample:
  "classifyOperation ''a.ts'' ([], spacedPrimaryCall)
     = Some (plainOp Read ''findMany'' ''user'' ''a.ts'' 3)
   \<and> \<not> usesPrimary (plainOp Read ''findMany'' ''user'' ''a.ts'' 3)"
  by (simp add: spacedPrimaryCall_def ident_def plainOp_def WRITE_METHODS_def READ_METHODS_def
      replicaWalk.simps)

text \<open>
  Claim C7. Every classified call below a call whose callee is a property access named
  \<open>$transaction\<close>, at whatever depth, is marked as being in a transaction.
\<close>

theorem transaction_any_depth:
  assumes "r \<in> set (getDescendants parents (Call t ln col (PropertyAccess pt pe ''$transaction'') args))"
    and "classifyOperation path r = Some op"
  shows "inTransaction op"
proof -
  from assms(1) obtain xs where
    "fst r = xs @ Call t ln col (PropertyAccess pt pe ''$transaction'') args # parents"
    using getDescendants_parents by blast
  then have "isInTransaction (fst r)"
    by (auto simp: isInTransaction_iff)
  with assms(2) show ?thesis
    using classifyOperation_inTransaction[of path "fst r" "snd r" op] by simp
qed

theorem transaction_any_depth_witness:
  "\<exists>op. classifyOperation ''src/t.ts''
          ([Other ''{}'' [plainCall ''tx'' 3 ''user'' ''create'', plainCall ''tx'' 4 ''user'' ''findMany''],
            Arrow ''async (tx) => {}''
              [Other ''{}'' [plainCall ''tx'' 3 ''user'' ''create'',
                             plainCall ''tx'' 4 ''user'' ''findMany'']],
            transactionCall],
           plainCall ''tx'' 4 ''user'' ''findMany'') = Some op \<and> inTransaction op"
proof -
  let ?r = "([Other ''{}'' [plainCall ''tx'' 3 ''user'' ''create'', plainCall ''tx'' 4 ''user'' ''findMany''],
            Arrow ''async (tx) => {}''
              [Other ''{}'' [plainCall ''tx'' 3 ''user'' ''create'',
                             plainCall ''tx'' 4 ''user'' ''findMany'']],
            transactionCall],
           plainCall ''tx'' 4 ''user'' ''findMany'')"
  let ?op = "(plainOp Read ''findMany'' ''user'' ''src/t.ts'' 4)\<lparr>inTransaction := True\<rparr>"
  have d: "?r \<in> set (getDescendants []
       (Call ''prisma.$transaction(async (tx) => {})'' 2 3
          (PropertyAccess ''prisma.$transaction'' (ident ''prisma'') ''$transaction'')
          [Arrow ''async (tx) => {}''
             [Other ''{}'' [plainCall ''tx'' 3 ''user'' ''create'',
                            plainCall ''tx'' 4 ''user'' ''findMany'']]]))"
    by (simp add: transactionCall_def callOf_def propertyAccessOf_def ident_def)
  have c: "classifyOperation ''src/t.ts'' ?r = Some ?op"
    by (simp add: classify_plainCall READ_METHODS_def WRITE_METHODS_def)
      (simp add: transactionCall_def callOf_def propertyAccessOf_def)
  show ?thesis
    using transaction_any_depth[OF d c] c by simp
qed

text \<open>
  Claim C8. A read routed to a replica, outside a transaction and not routed to the
  primary, is paired with every earlier write outside a transaction; and changing the
  replica flags of the operations changes nothing in the issues but those flags.
\<close>

theorem replica_reads_are_paired:
  assumes "ops = map operation (collectOperations path func)"
    and "i < j" and "j < length ops"
    and "type (ops ! i) = Write" and "\<not> inTransaction (ops ! i)"
    and "type (ops ! j) = Read" and "\<not> inTransaction (ops ! j)"
    and "\<not> usesPrimary (ops ! j)" and "usesReplica (ops ! j)"
  shows "mkIssue (ops ! i) (ops ! j) \<in> set (detectIssuesInFunction path func)
    \<and> writeLoop (map (\<lambda>p. p\<lparr>operation := (operation p)\<lparr>usesReplica := flag (operation p)\<rparr>\<rparr>)
                      operations) 0 []
        = map (\<lambda>x. x\<lparr>writeOperation :=
                         (writeOperation x)\<lparr>usesReplica := flag (writeOperation x)\<rparr>,
                       readOperation :=
                         (readOperation x)\<lparr>usesReplica := flag (readOperation x)\<rparr>\<rparr>)
              (writeLoop operations 0 [])"
proof
  show "mkIssue (ops ! i) (ops ! j) \<in> set (detectIssuesInFunction path func)"
    unfolding detect_pairs assms(1)[symmetric]
    using assms(2-8) by (intro pairsFrom_nth) (simp_all add: writable_def readable_def)
next
  have "map operation
          (map (\<lambda>p. p\<lparr>operation := (operation p)\<lparr>usesReplica := flag (operation p)\<rparr>\<rparr>) operations)
        = map (\<lambda>p. p\<lparr>usesReplica := flag p\<rparr>) (map operation operations)"
    by simp
  then show "writeLoop (map (\<lambda>p. p\<lparr>operation := (operation p)\<lparr>usesReplica := flag (operation p)\<rparr>\<rparr>)
                      operations) 0 []
        = map (\<lambda>x. x\<lparr>writeOperation :=
                         (writeOperation x)\<lparr>usesReplica := flag (writeOperation x)\<rparr>,
                       readOperation :=
                         (readOperation x)\<lparr>usesReplica := flag (readOperation x)\<rparr>\<rparr>)
              (writeLoop operations 0 [])"
    by (simp only: writeLoop_eq drop_0 append_Nil pairsFrom_replica_flag)
qed

theorem replica_reads_are_paired_witness:
  "mkIssue (plainOp Write ''create'' ''user'' ''src/cross.ts'' 3)
           ((plainOp Read ''findFirst'' ''user'' ''src/cross.ts'' 7)\<lparr>usesReplica := True\<rparr>)
     \<in> set (detectIssuesInFunction ''src/cross.ts'' ([], crossProduct))"
  using replica_reads_are_paired[OF collect_crossProduct[symmetric], of 0 4]
  by (simp add: plainOp_def)

text \<open>
  Claim C9. For the sequence create, findFirst, update, findUnique, none in a transaction
  or routed to the primary, the issues are create with findFirst, create with findUnique
  and update with findUnique, and update is not paired with findFirst.
\<close>

theorem scenario_D_three_issues:
  assumes "map operation (collectOperations path func) = [c, f, u, q]"
    and "method' c = ''create''" and "method' f = ''findFirst''"
    and "method' u = ''update''" and "method' q = ''findUnique''"
    and "\<forall>p \<in> set [c, f, u, q]. \<not> inTransaction p \<and> \<not> usesPrimary p"
  shows "detectIssuesInFunction path func = [mkIssue c f, mkIssue c q, mkIssue u q]
    \<and> mkIssue u f \<notin> set (detectIssuesInFunction path func)"
proof -
  have m: "c \<in> set (map operation (collectOperations path func))"
    "f \<in> set (map operation (collectOperations path func))"
    "u \<in> set (map operation (collectOperations path func))"
    "q \<in> set (map operation (collectOperations path func))"
    by (simp_all add: assms(1))
  have "type c = Write" using collected_type[OF m(1)] assms(2) by (simp add: WRITE_METHODS_def)
  moreover have "type f = Read"
    using collected_type[OF m(2)] assms(3) by (simp add: WRITE_METHODS_def)
  moreover have "type u = Write"
    using collected_type[OF m(3)] assms(4) by (simp add: WRITE_METHODS_def)
  moreover have "type q = Read"
    using collected_type[OF m(4)] assms(5) by (simp add: WRITE_METHODS_def)
  ultimately have w: "writable c" "\<not> writable f" "writable u" "\<not> writable q"
    "readable f" "readable q" "\<not> readable c" "\<not> readable u"
    using assms(6) by (simp_all add: writable_def readable_def)
  have e: "detectIssuesInFunction path func = [mkIssue c f, mkIssue c q, mkIssue u q]"
    by (simp add: detect_pairs assms(1) w)
  have "u \<noteq> c" "f \<noteq> q" using assms(2-5) by auto
  then have "mkIssue u f \<notin> set [mkIssue c f, mkIssue c q, mkIssue u q]" by simp
  with e show ?thesis by simp
qed

theorem scenario_D_three_issues_witness:
  "length (detectIssuesInFunction ''src/d.ts'' ([], scenarioD)) = 3
   \<and> mkIssue (plainOp Write ''update'' ''user'' ''src/d.ts'' 5)
              (plainOp Read ''findFirst'' ''user'' ''src/d.ts'' 4)
        \<notin> set (detectIssuesInFunction ''src/d.ts'' ([], scenarioD))"
proof -
  have c: "map operation (collectOperations ''src/d.ts'' ([], scenarioD)) =
     [plainOp Write ''create'' ''user'' ''src/d.ts'' 3,
      plainOp Read ''findFirst'' ''user'' ''src/d.ts'' 4,
      plainOp Write ''update'' ''user'' ''src/d.ts'' 5,
      plainOp Read ''findUnique'' ''user'' ''src/d.ts'' 6]"
    by (simp add: collect_scenarioD) (simp add: plainOp_def)
  have m: "method' (plainOp Write ''create'' ''user'' ''src/d.ts'' 3) = ''create''"
    "method' (plainOp Read ''findFirst'' ''user'' ''src/d.ts'' 4) = ''findFirst''"
    "method' (plainOp Write ''update'' ''user'' ''src/d.ts'' 5) = ''update''"
    "method' (plainOp Read ''findUnique'' ''user'' ''src/d.ts'' 6) = ''findUnique''"
    by (simp_all add: plainOp_def)
  have g: "\<forall>p \<in> set [plainOp Write ''create'' ''user'' ''src/d.ts'' 3,
      plainOp Read ''findFirst'' ''user'' ''src/d.ts'' 4,
      plainOp Write ''update'' ''user'' ''src/d.ts'' 5,
      plainOp Read ''findUnique'' ''user'' ''src/d.ts'' 6]. \<not> inTransaction p \<and> \<not> usesPrimary p"
    by (simp add: plainOp_def)
  note th = scenario_D_three_issues[OF c m g]
  have "length (detectIssuesInFunction ''src/d.ts'' ([], scenarioD)) = 3"
    using th[THEN conjunct1] by simp
  then show ?thesis
    using th[THEN conjunct2] by (rule conjI)
qed

text \<open>
  Claim C10. No classified operation has both routing flags set; a first node whose text
  mentions \<open>$primary()\<close> gives primary routing even if it mentions \<open>$replica()\<close> too,
  and one that mentions \<open>$replica()\<close> only gives replica routing.
\<close>

theorem routing_flags_exclusive:
  "(classifyOperation path r = Some op \<longrightarrow> \<not> (usesPrimary op \<and> usesReplica op))
   \<and> (includes_str (getText e) ''$primary()'' \<longrightarrow>
        checkReplicaUsage (PropertyAccess t e m) = (True, False))
   \<and> (\<not> includes_str (getText e) ''$primary()'' \<and> includes_str (getText e) ''$replica()'' \<longrightarrow>
        checkReplicaUsage (PropertyAccess t e m) = (False, True))"
proof (intro conjI impI)
  assume "classifyOperation path r = Some op"
  then show "\<not> (usesPrimary op \<and> usesReplica op)"
    by (rule classifyOperation_flags)
next
  assume "includes_str (getText e) ''$primary()''"
  then show "checkReplicaUsage (PropertyAccess t e m) = (True, False)"
    by (simp add: replicaWalk.simps)
next
  assume "\<not> includes_str (getText e) ''$primary()'' \<and> includes_str (getText e) ''$replica()''"
  then show "checkReplicaUsage (PropertyAccess t e m) = (False, True)"
    by (simp add: replicaWalk.simps)
qed

theorem routing_flags_exclusive_witness:
  "\<exists>op. classifyOperation ''a.ts'' ([], primaryCall ''prisma'' 3 ''user'' ''findMany'') = Some op
      \<and> \<not> (usesPrimary op \<and> usesReplica op)
      \<and> checkReplicaUsage
           (PropertyAccess ''x'' (ident ''a.$primary().$replica().b'') ''findMany'') = (True, False)
      \<and> checkReplicaUsage
           (PropertyAccess ''x'' (ident ''a.$replica().b'') ''findMany'') = (False, True)"
proof -
  have e: "includes_str (getText (ident ''a.$primary().$replica().b'')) ''$primary()''"
    by (simp add: ident_def)
  have f: "\<not> includes_str (getText (ident ''a.$replica().b'')) ''$primary()''
      \<and> includes_str (getText (ident ''a.$replica().b'')) ''$replica()''"
    by (simp add: ident_def)
  obtain op where
    n: "classifyOperation ''a.ts'' ([], primaryCall ''prisma'' 3 ''user'' ''findMany'') = Some op"
    by (simp add: primaryCall_def callOf_def propertyAccessOf_def ident_def READ_METHODS_def
        WRITE_METHODS_def replicaWalk.simps)
  show ?thesis
    using n e f
      routing_flags_exclusive[of "''a.ts''" "([], primaryCall ''prisma'' 3 ''user'' ''findMany'')" op
        "ident ''a.$primary().$replica().b''" "''x''" "''findMany''"]
      routing_flags_exclusive[of "''a.ts''" "([], primaryCall ''prisma'' 3 ''user'' ''findMany'')" op
        "ident ''a.$replica().b''" "''x''" "''findMany''"]
    by blast
qed

end
